theory Spec2Isabelle
  imports Main "HOL-Library.Char_ord" "HOL-Library.List_Lexorder" "HOL-Library.Sublist"
begin

section \<open>The solver factory of caffe/solver_factory.hpp\<close>

text \<open>
  The header declares, for every precision type \<open>Dtype\<close>, a class \<open>SolverRegistry<Dtype>\<close>
  whose only data is one function-local static \<open>std::map<string, Creator>\<close>, and a helper
  class \<open>SolverRegisterer<Dtype>\<close> whose constructor adds one entry to it. Two macros
  instantiate the helper for \<open>float\<close> and \<open>double\<close>.

  The embedding threads the state of the process through every operation: the static maps
  (one per precision type, absent until \<open>Registry()\<close> is first called) and the rest of
  the program's memory. A creator is a function pointer; the code behind the pointers is
  given separately and acts on the whole state of the process, the registries included,
  since \<open>AddCreator\<close> and \<open>Registry()\<close> are public. A fatal \<open>CHECK_EQ\<close> is the left
  summand of the result, paired with the state in which the process stops.
\<close>

subsection \<open>Data\<close>

text \<open>
  \<open>SolverParameter\<close> is a protobuf message declared outside this header; the registry reads
  its string field \<open>type\<close> only. The extensible record leaves every other field open.
\<close>

record SolverParameter =
  type :: string

text \<open>The precision types the macros name.\<close>

datatype Dtype = Dtype_float | Dtype_double

text \<open>
  The functions of the program that a pointer can refer to: the instantiation
  \<open>Creator_##type##Solver<Dtype>\<close> of the template that \<open>REGISTER_SOLVER_CLASS(type)\<close>
  generates, and any other function, named by a value of \<open>'c\<close>.
\<close>

datatype 'c function_pointer =
  Creator_Solver string Dtype
  | Program_function 'c

text \<open>
  \<open>typedef Solver<Dtype>* (*Creator)(const SolverParameter&)\<close>: a function pointer, so
  it may be null (\<open>None\<close>).
\<close>

type_synonym 'c Creator = "'c function_pointer option"

text \<open>
  \<open>typedef std::map<string, Creator> CreatorRegistry\<close>: the entries in iteration order,
  which for \<open>std::map\<close> is ascending in the key under \<open>std::less<string>\<close>, the
  lexicographic order on the bytes of the string.
\<close>

type_synonym 'c CreatorRegistry = "(string \<times> 'c Creator) list"

text \<open>
  The two fatal checks of the header, each carrying the text streamed onto the failure
  message, and the call through a null creator.
\<close>

datatype error =
  DuplicateRegistration string
  | UnknownType string
  | NullCreatorCalled

text \<open>
  The state of the process: \<open>g_registry d\<close> is the static pointer \<open>g_registry_\<close> of
  \<open>SolverRegistry<d>::Registry\<close>, \<open>None\<close> until its initialiser has run.
\<close>

record ('d, 'c, 'w) process =
  g_registry :: "'d \<Rightarrow> 'c CreatorRegistry option"
  world :: 'w

text \<open>
  What calling through a non-null function pointer does: the function receives the
  parameter, runs on the state of the whole process and returns the solver pointer \<open>'s\<close>.
  Only functions that return are described.
\<close>

type_synonym ('d, 'c, 'z, 's, 'w) call_semantics =
  "'c function_pointer \<Rightarrow> 'z SolverParameter_scheme \<Rightarrow> ('d, 'c, 'w) process
    \<Rightarrow> 's \<times> ('d, 'c, 'w) process"

subsection \<open>The operations of \<open>std::map\<close> the header uses\<close>

text \<open>
  \<open>count\<close>: the position of the first key not less than \<open>k\<close> is searched; the answer is 1
  when the key there is not greater than \<open>k\<close> either, and 0 otherwise.
\<close>

fun map_count :: "'c CreatorRegistry \<Rightarrow> string \<Rightarrow> nat" where
  "map_count [] k = 0"
| "map_count ((k', v) # r) k =
     (if k' < k then map_count r k else if k < k' then 0 else 1)"

text \<open>
  \<open>operator[]\<close>: the same search; when the key is absent an entry with a value-initialised
  (null) creator is inserted at that position. The result is the referenced value and the
  map after the call.
\<close>

fun map_subscript ::
  "'c CreatorRegistry \<Rightarrow> string \<Rightarrow> 'c Creator \<times> 'c CreatorRegistry"
where
  "map_subscript [] k = (None, [(k, None)])"
| "map_subscript ((k', v) # r) k =
     (if k' < k then (let (c, r') = map_subscript r k in (c, (k', v) # r'))
      else if k < k' then (None, (k, None) # (k', v) # r)
      else (v, (k', v) # r))"

text \<open>Assignment through the reference that \<open>operator[]\<close> returned for key \<open>k\<close>.\<close>

fun map_store ::
  "'c CreatorRegistry \<Rightarrow> string \<Rightarrow> 'c Creator \<Rightarrow> 'c CreatorRegistry"
where
  "map_store [] k c = []"
| "map_store ((k', v) # r) k c =
     (if k' < k then (k', v) # map_store r k c
      else if k < k' then (k', v) # r
      else (k', c) # r)"

subsection \<open>\<open>SolverRegistry<Dtype>\<close>\<close>

text \<open>
  \<open>Registry()\<close>: the static is initialised with a new empty map on the first call; every
  call returns a reference to that map.
\<close>

definition Registry ::
  "'d \<Rightarrow> ('d, 'c, 'w) process \<Rightarrow> 'c CreatorRegistry \<times> ('d, 'c, 'w) process"
where
  "Registry d p =
     (case g_registry p d of
        None \<Rightarrow> ([], p\<lparr>g_registry := (g_registry p)(d \<mapsto> [])\<rparr>)
      | Some registry \<Rightarrow> (registry, p))"

text \<open>A write through the reference returned by \<open>Registry()\<close>.\<close>

definition Registry_update ::
  "'d \<Rightarrow> 'c CreatorRegistry \<Rightarrow> ('d, 'c, 'w) process \<Rightarrow> ('d, 'c, 'w) process"
where
  "Registry_update d registry p = p\<lparr>g_registry := (g_registry p)(d \<mapsto> registry)\<rparr>"

definition AddCreator ::
  "'d \<Rightarrow> string \<Rightarrow> 'c Creator \<Rightarrow> ('d, 'c, 'w) process
    \<Rightarrow> (error + unit) \<times> ('d, 'c, 'w) process"
where
  "AddCreator d type' creator p =
     (let (registry, p1) = Registry d p in
      if map_count registry type' \<noteq> 0
      then (Inl (DuplicateRegistration (''Solver type '' @ type' @ '' already registered.'')), p1)
      else (Inr (),
            Registry_update d (map_store (snd (map_subscript registry type')) type' creator) p1))"

text \<open>\<open>SolverTypeList\<close>: the loop over the map pushes each key onto the back of the vector.\<close>

fun SolverTypeList_loop :: "'c CreatorRegistry \<Rightarrow> string list \<Rightarrow> string list" where
  "SolverTypeList_loop [] solver_types = solver_types"
| "SolverTypeList_loop ((k, c) # rest) solver_types =
     SolverTypeList_loop rest (solver_types @ [k])"

definition SolverTypeList ::
  "'d \<Rightarrow> ('d, 'c, 'w) process \<Rightarrow> string list \<times> ('d, 'c, 'w) process"
where
  "SolverTypeList d p =
     (let (registry, p1) = Registry d p in (SolverTypeList_loop registry [], p1))"

text \<open>
  \<open>SolverTypeListString\<close>: the loop over the vector; \<open>at_begin\<close> is the test
  \<open>iter == solver_types.begin()\<close>, true for the first element only.
\<close>

fun SolverTypeListString_loop :: "string list \<Rightarrow> bool \<Rightarrow> string \<Rightarrow> string" where
  "SolverTypeListString_loop [] at_begin solver_types_str = solver_types_str"
| "SolverTypeListString_loop (x # xs) at_begin solver_types_str =
     SolverTypeListString_loop xs False
       ((if \<not> at_begin then solver_types_str @ '', '' else solver_types_str) @ x)"

definition SolverTypeListString ::
  "'d \<Rightarrow> ('d, 'c, 'w) process \<Rightarrow> string \<times> ('d, 'c, 'w) process"
where
  "SolverTypeListString d p =
     (let (solver_types, p1) = SolverTypeList d p in
      (SolverTypeListString_loop solver_types True [], p1))"

text \<open>
  \<open>CreateSolver\<close>; \<open>call\<close> is the code behind the function pointers of the program.
\<close>

definition CreateSolver ::
  "('d, 'c, 'z, 's, 'w) call_semantics \<Rightarrow> 'd \<Rightarrow> 'z SolverParameter_scheme
    \<Rightarrow> ('d, 'c, 'w) process \<Rightarrow> (error + 's) \<times> ('d, 'c, 'w) process"
where
  "CreateSolver call d param p =
     (let type' = type param;
          (registry, p1) = Registry d p in
      if map_count registry type' \<noteq> 1
      then (let (known, p2) = SolverTypeListString d p1 in
            (Inl (UnknownType
                   (''Unknown solver type: '' @ type' @ '' (known types: '' @ known @ '')'')),
             p2))
      else (let (creator, registry') = map_subscript registry type';
                p2 = Registry_update d registry' p1 in
            case creator of
              None \<Rightarrow> (Inl NullCreatorCalled, p2)
            | Some f \<Rightarrow> (let (solver, p3) = call f param p2 in (Inr solver, p3))))"

subsection \<open>\<open>SolverRegisterer<Dtype>\<close> and the registration macros\<close>

text \<open>The constructor; the class has no members.\<close>

definition SolverRegisterer ::
  "'d \<Rightarrow> string \<Rightarrow> 'c Creator \<Rightarrow> ('d, 'c, 'w) process
    \<Rightarrow> (error + unit) \<times> ('d, 'c, 'w) process"
where
  "SolverRegisterer d type' creator p = AddCreator d type' creator p"

text \<open>
  \<open>REGISTER_SOLVER_CREATOR(type, creator)\<close> defines two statics of one translation unit,
  initialised in the order of their definitions; \<open>#type\<close> is the identifier as a string and
  \<open>creator<float>\<close>, \<open>creator<double>\<close> are the addresses of the instances of a function
  template.
\<close>

definition REGISTER_SOLVER_CREATOR ::
  "string \<Rightarrow> (Dtype \<Rightarrow> 'c function_pointer)
    \<Rightarrow> (Dtype, 'c, 'w) process \<Rightarrow> (error + unit) \<times> (Dtype, 'c, 'w) process"
where
  "REGISTER_SOLVER_CREATOR type' creator p =
     (case SolverRegisterer Dtype_float type' (Some (creator Dtype_float)) p of
        (Inl e, p1) \<Rightarrow> (Inl e, p1)
      | (Inr g_creator_f, p1) \<Rightarrow>
          SolverRegisterer Dtype_double type' (Some (creator Dtype_double)) p1)"

text \<open>
  \<open>REGISTER_SOLVER_CLASS(type)\<close> generates the template \<open>Creator_##type##Solver\<close> and
  registers its two instances.
\<close>

definition REGISTER_SOLVER_CLASS ::
  "string \<Rightarrow> (Dtype, 'c, 'w) process \<Rightarrow> (error + unit) \<times> (Dtype, 'c, 'w) process"
where
  "REGISTER_SOLVER_CLASS type' p = REGISTER_SOLVER_CREATOR type' (Creator_Solver type') p"

text \<open>
  The code of a program: the generated \<open>Creator_##type##Solver<Dtype>\<close> returns
  \<open>new type##Solver<Dtype>(param)\<close>; every other function does what \<open>functions\<close> says.
  The solver classes are defined outside this header, so \<open>new_Solver c d\<close> stands for
  allocating and constructing an object of class \<open>c<d>\<close>.
\<close>

fun program_calls ::
  "('c \<Rightarrow> 'z SolverParameter_scheme \<Rightarrow> ('d, 'c, 'w) process \<Rightarrow> 's \<times> ('d, 'c, 'w) process)
    \<Rightarrow> (string \<Rightarrow> Dtype \<Rightarrow> 'z SolverParameter_scheme \<Rightarrow> ('d, 'c, 'w) process
          \<Rightarrow> 's \<times> ('d, 'c, 'w) process)
    \<Rightarrow> ('d, 'c, 'z, 's, 'w) call_semantics"
where
  "program_calls functions new_Solver (Creator_Solver type' d) param p =
     new_Solver (type' @ ''Solver'') d param p"
| "program_calls functions new_Solver (Program_function c) param p = functions c param p"

subsection \<open>Notions used in the statements\<close>

text \<open>The state of a process before any static initialiser of the header has run.\<close>

definition startup :: "'w \<Rightarrow> ('d, 'c, 'w) process" where
  "startup w = \<lparr>g_registry = (\<lambda>d. None), world = w\<rparr>"

text \<open>
  The map that \<open>Registry()\<close> refers to for precision type \<open>d\<close>: empty when the static has
  not been initialised yet, as the first call would find it.
\<close>

definition registry_of :: "'d \<Rightarrow> ('d, 'c, 'w) process \<Rightarrow> 'c CreatorRegistry" where
  "registry_of d p = (case g_registry p d of None \<Rightarrow> [] | Some registry \<Rightarrow> registry)"

text \<open>The identifiers registered for precision type \<open>d\<close>: the keys of the entries.\<close>

definition registered :: "'d \<Rightarrow> ('d, 'c, 'w) process \<Rightarrow> string set" where
  "registered d p = fst ` set (registry_of d p)"

text \<open>
  The representation invariant of \<open>std::map\<close>: the keys are strictly ascending, so no key
  occurs twice.
\<close>

definition map_ok :: "'c CreatorRegistry \<Rightarrow> bool" where
  "map_ok r = sorted_wrt (<) (map fst r)"

text \<open>
  A sequence of calls of \<open>AddCreator\<close>, each for the precision type named in the call; the
  process stops at the first fatal check.
\<close>

fun AddCreator_calls ::
  "('d \<times> string \<times> 'c Creator) list \<Rightarrow> ('d, 'c, 'w) process
    \<Rightarrow> (error + unit) \<times> ('d, 'c, 'w) process"
where
  "AddCreator_calls [] p = (Inr (), p)"
| "AddCreator_calls ((d, type', creator) # calls) p =
     (case AddCreator d type' creator p of
        (Inl e, p1) \<Rightarrow> (Inl e, p1)
      | (Inr u, p1) \<Rightarrow> AddCreator_calls calls p1)"

text \<open>The identifiers that a sequence of calls registers for precision type \<open>d\<close>, in call order.\<close>

definition calls_for :: "'d \<Rightarrow> ('d \<times> string \<times> 'c Creator) list \<Rightarrow> string list" where
  "calls_for d calls = map (\<lambda>c. fst (snd c)) (filter (\<lambda>c. fst c = d) calls)"

text \<open>
  Joining with a separator, as the specification words it: the separator stands between
  consecutive elements, not before the first and not after the last.
\<close>

fun join_with :: "string \<Rightarrow> string list \<Rightarrow> string" where
  "join_with sep [] = []"
| "join_with sep [x] = x"
| "join_with sep (x # y # ys) = x @ sep @ join_with sep (y # ys)"

subsection \<open>A concrete program for the examples\<close>

text \<open>
  In the examples a solver pointer is the class of the object, its precision type and its
  address; the memory outside the registries is the next free address, and allocation
  returns it and moves on.
\<close>

definition new_example ::
  "string \<Rightarrow> Dtype \<Rightarrow> SolverParameter \<Rightarrow> (Dtype, nat, nat) process
    \<Rightarrow> (string \<times> Dtype \<times> nat) \<times> (Dtype, nat, nat) process"
where
  "new_example c d param p = ((c, d, world p), p\<lparr>world := Suc (world p)\<rparr>)"

text \<open>
  The other functions of the example program: each allocates a \<open>RegSolver<float>\<close> and
  registers itself once more, for single precision, under the identifier \<open>Sneaky\<close>.
\<close>

definition sneaky ::
  "nat \<Rightarrow> SolverParameter \<Rightarrow> (Dtype, nat, nat) process
    \<Rightarrow> (string \<times> Dtype \<times> nat) \<times> (Dtype, nat, nat) process"
where
  "sneaky c param p =
     (let (solver, p1) = new_example ''RegSolver'' Dtype_float param p in
      (solver, snd (AddCreator Dtype_float ''Sneaky'' (Some (Program_function c)) p1)))"

definition example_program ::
  "(Dtype, nat, unit, string \<times> Dtype \<times> nat, nat) call_semantics"
where
  "example_program = program_calls sneaky new_example"

text \<open>A process whose single-precision registry holds \<open>Adam\<close> and \<open>SGD\<close>.\<close>

definition sgd_adam :: "(Dtype, nat, nat) process" where
  "sgd_adam =
     \<lparr>g_registry = (\<lambda>d. None)(Dtype_float \<mapsto>
        [(''Adam'', Some (Creator_Solver ''Adam'' Dtype_float)),
         (''SGD'', Some (Creator_Solver ''SGD'' Dtype_float))]),
      world = 0\<rparr>"


text \<open>
  The static initialisers of a program that registers three solvers for single precision and
  one for double precision.
\<close>

definition startup_calls :: "(Dtype \<times> string \<times> nat Creator) list" where
  "startup_calls =
     [(Dtype_float, ''SGD'', Some (Creator_Solver ''SGD'' Dtype_float)),
      (Dtype_double, ''SGD'', Some (Creator_Solver ''SGD'' Dtype_double)),
      (Dtype_float, ''Adam'', Some (Creator_Solver ''Adam'' Dtype_float)),
      (Dtype_float, ''Nesterov'', Some (Creator_Solver ''Nesterov'' Dtype_float))]"

section \<open>Properties of the map operations\<close>

lemma map_count_absent: "k \<notin> fst ` set r \<Longrightarrow> map_count r k = 0"
  by (induction r) (auto simp: image_iff)

lemma map_count_present: "map_ok r \<Longrightarrow> k \<in> fst ` set r \<Longrightarrow> map_count r k = 1"
proof (induction r)
  case Nil
  then show ?case by simp
next
  case (Cons e r)
  obtain k' v where e: "e = (k', v)" by (cases e)
  from Cons.prems(1) have ok: "map_ok r" and lt: "\<forall>x\<in>set r. k' < fst x"
    by (simp_all add: map_ok_def e)
  show ?case
  proof (cases "k = k'")
    case True
    then show ?thesis by (simp add: e)
  next
    case False
    with Cons.prems(2) have in_r: "k \<in> fst ` set r" by (auto simp: e)
    with lt have "k' < k" by auto
    with Cons.IH [OF ok in_r] show ?thesis by (simp add: e)
  qed
qed

lemma map_count_cases: "map_count r k = 0 \<or> map_count r k = 1"
  by (induction r k rule: map_count.induct) simp_all

lemma map_count_found: "map_count r k = 1 \<Longrightarrow> k \<in> fst ` set r"
proof (induction r k rule: map_count.induct)
  case (1 k)
  then show ?case by simp
next
  case (2 k' v r k)
  show ?case
  proof (cases "k' < k")
    case True
    with 2 show ?thesis by simp
  next
    case False
    with "2.prems" have "\<not> k < k'" by (simp split: if_splits)
    with False have "k = k'" by simp
    then show ?thesis by simp
  qed
qed


lemma map_subscript_found:
  "map_count r k = 1 \<Longrightarrow> snd (map_subscript r k) = r \<and> (k, fst (map_subscript r k)) \<in> set r"
proof (induction r k rule: map_count.induct)
  case (1 k)
  then show ?case by simp
next
  case (2 k' v r k)
  show ?case
  proof (cases "k' < k")
    case True
    with 2 show ?thesis by (simp add: case_prod_beta)
  next
    case False
    with "2.prems" have "\<not> k < k'" by (simp split: if_splits)
    with False have "k = k'" by simp
    then show ?thesis by simp
  qed
qed

lemma map_subscript_present:
  assumes "map_ok r" "(k, c) \<in> set r"
  shows "map_subscript r k = (c, r)"
proof -
  have one: "map_count r k = 1"
    using assms map_count_present [of r k] by force
  have "distinct (map fst r)"
    using assms(1) by (simp add: map_ok_def strict_sorted_iff)
  with map_subscript_found [OF one] assms(2) have "fst (map_subscript r k) = c"
    by (metis eq_key_imp_eq_value)
  with map_subscript_found [OF one] show ?thesis
    by (metis prod.collapse)
qed

lemma keys_store_subscript:
  "map_count r k = 0 \<Longrightarrow>
   map fst (map_store (snd (map_subscript r k)) k c) = insort k (map fst r)"
proof (induction r k rule: map_count.induct)
  case (1 k)
  then show ?case by simp
next
  case (2 k' v r k)
  show ?case
  proof (cases "k' < k")
    case True
    then have "\<not> k \<le> k'" by simp
    with True 2 show ?thesis by (simp add: case_prod_beta)
  next
    case False
    with "2.prems" have "k < k'" by (simp split: if_splits)
    then have "k \<le> k'" "k \<noteq> k'" by simp_all
    with False \<open>k < k'\<close> show ?thesis by simp
  qed
qed

lemma set_store_subscript:
  "map_count r k = 0 \<Longrightarrow>
   set (map_store (snd (map_subscript r k)) k c) = insert (k, c) (set r)"
proof (induction r k rule: map_count.induct)
  case (1 k)
  then show ?case by simp
next
  case (2 k' v r k)
  show ?case
  proof (cases "k' < k")
    case True
    with 2 show ?thesis by (auto simp add: case_prod_beta)
  next
    case False
    with "2.prems" have "k < k'" by (simp split: if_splits)
    with False show ?thesis by simp
  qed
qed

lemma map_ok_store_subscript:
  assumes "map_ok r" "map_count r k = 0"
  shows "map_ok (map_store (snd (map_subscript r k)) k c)"
proof -
  have "k \<notin> fst ` set r"
    using assms map_count_present by fastforce
  then have "distinct (insort k (map fst r))" "sorted (insort k (map fst r))"
    using assms(1) by (simp_all add: map_ok_def strict_sorted_iff distinct_insort sorted_insort)
  then show ?thesis
    by (simp add: map_ok_def keys_store_subscript [OF assms(2)] strict_sorted_iff)
qed

lemma SolverTypeList_loop_eq: "SolverTypeList_loop r acc = acc @ map fst r"
  by (induction r acc rule: SolverTypeList_loop.induct) simp_all

lemma SolverTypeListString_loop_rest:
  "SolverTypeListString_loop xs False acc = acc @ concat (map (\<lambda>x. '', '' @ x) xs)"
  by (induction xs arbitrary: acc) simp_all

lemma join_with_Cons: "join_with sep (x # xs) = x @ concat (map (\<lambda>y. sep @ y) xs)"
  by (induction xs arbitrary: x) simp_all

lemma SolverTypeListString_loop_join:
  "SolverTypeListString_loop xs True [] = join_with '', '' xs"
  by (cases xs) (simp_all add: SolverTypeListString_loop_rest join_with_Cons)

section \<open>Properties of the registry operations\<close>

lemma Registry_eq:
  "fst (Registry d p) = registry_of d p"
  by (simp add: Registry_def registry_of_def split: option.splits)

lemma Registry_update_Registry:
  "Registry_update d r (snd (Registry d p)) = Registry_update d r p"
  by (simp add: Registry_def Registry_update_def split: option.splits)

lemma Registry_created:
  "g_registry p d = Some r \<Longrightarrow> Registry d p = (r, p)"
  by (simp add: Registry_def)

lemma registered_created:
  "k \<in> registered d p \<Longrightarrow> g_registry p d = Some (registry_of d p)"
  by (cases "g_registry p d") (simp_all add: registered_def registry_of_def)

lemma registry_of_Registry_update:
  "registry_of d' (Registry_update d r p) = (if d' = d then r else registry_of d' p)"
  by (simp add: registry_of_def Registry_update_def)

lemma registry_of_Registry:
  "registry_of d' (snd (Registry d p)) = registry_of d' p"
  by (simp add: registry_of_def Registry_def split: option.splits)

lemma world_Registry: "world (snd (Registry d p)) = world p"
  by (simp add: Registry_def split: option.splits)

lemma AddCreator_absent:
  assumes "type' \<notin> registered d p"
  shows "AddCreator d type' creator p =
    (Inr (), Registry_update d
               (map_store (snd (map_subscript (registry_of d p) type')) type' creator) p)"
proof -
  have "map_count (registry_of d p) type' = 0"
    using assms by (simp add: registered_def map_count_absent)
  then show ?thesis
    using Registry_eq [of d p] Registry_update_Registry [of d _ p]
    by (simp add: AddCreator_def case_prod_beta)
qed

lemma AddCreator_present:
  assumes "map_ok (registry_of d p)" "type' \<in> registered d p"
  shows "AddCreator d type' creator p =
    (Inl (DuplicateRegistration (''Solver type '' @ type' @ '' already registered.'')), p)"
proof -
  have "map_count (registry_of d p) type' = 1"
    using assms by (simp add: registered_def map_count_present)
  moreover have "Registry d p = (registry_of d p, p)"
    using registered_created [OF assms(2)] by (rule Registry_created)
  ultimately show ?thesis
    by (simp add: AddCreator_def)
qed

lemma registered_AddCreator:
  assumes "fst (AddCreator d type' creator p) = Inr ()" "map_ok (registry_of d p)"
  shows "registered d (snd (AddCreator d type' creator p)) = insert type' (registered d p)"
    and "map_ok (registry_of d (snd (AddCreator d type' creator p)))"
    and "map fst (registry_of d (snd (AddCreator d type' creator p))) =
           insort type' (map fst (registry_of d p))"
    and "type' \<notin> registered d p"
proof -
  show absent: "type' \<notin> registered d p"
    using assms AddCreator_present [of d p type' creator] by auto
  then have zero: "map_count (registry_of d p) type' = 0"
    by (simp add: registered_def map_count_absent)
  show "registered d (snd (AddCreator d type' creator p)) = insert type' (registered d p)"
    by (simp add: AddCreator_absent [OF absent] registry_of_Registry_update registered_def
        set_store_subscript [OF zero])
  show "map_ok (registry_of d (snd (AddCreator d type' creator p)))"
    by (simp add: AddCreator_absent [OF absent] registry_of_Registry_update
        map_ok_store_subscript [OF assms(2) zero])
  show "map fst (registry_of d (snd (AddCreator d type' creator p))) =
           insort type' (map fst (registry_of d p))"
    by (simp add: AddCreator_absent [OF absent] registry_of_Registry_update
        keys_store_subscript [OF zero])
qed

lemma AddCreator_other:
  "d' \<noteq> d \<Longrightarrow> g_registry (snd (AddCreator d type' creator p)) d' = g_registry p d'"
  by (simp add: AddCreator_def Registry_def Registry_update_def case_prod_beta split: option.splits)

lemma AddCreator_world: "world (snd (AddCreator d type' creator p)) = world p"
  by (simp add: AddCreator_def Registry_def Registry_update_def case_prod_beta split: option.splits)

lemma SolverTypeList_eq:
  "SolverTypeList d p = (map fst (registry_of d p), snd (Registry d p))"
  using Registry_eq [of d p]
  by (simp add: SolverTypeList_def case_prod_beta SolverTypeList_loop_eq)

lemma SolverTypeListString_eq:
  "SolverTypeListString d p = (join_with '', '' (map fst (registry_of d p)), snd (Registry d p))"
  by (simp add: SolverTypeListString_def SolverTypeList_eq SolverTypeListString_loop_join)

lemma CreateSolver_absent:
  assumes "type param \<notin> registered d p"
  shows "CreateSolver call d param p =
    (Inl (UnknownType (''Unknown solver type: '' @ type param @ '' (known types: ''
            @ join_with '', '' (map fst (registry_of d p)) @ '')'')),
     snd (Registry d p))"
proof -
  have "map_count (registry_of d p) (type param) = 0"
    using assms by (simp add: registered_def map_count_absent)
  moreover have "snd (Registry d (snd (Registry d p))) = snd (Registry d p)"
    by (simp add: Registry_def split: option.splits)
  ultimately show ?thesis
    using Registry_eq [of d p]
    by (simp add: CreateSolver_def case_prod_beta SolverTypeListString_eq registry_of_Registry)
qed

lemma CreateSolver_present:
  assumes "map_ok (registry_of d p)" "(type param, creator) \<in> set (registry_of d p)"
  shows "CreateSolver call d param p =
    (case creator of
       None \<Rightarrow> (Inl NullCreatorCalled, p)
     | Some f \<Rightarrow> (Inr (fst (call f param p)), snd (call f param p)))"
proof -
  have reg: "type param \<in> registered d p"
    using assms(2) by (force simp: registered_def)
  then have one: "map_count (registry_of d p) (type param) = 1"
    using assms(1) by (simp add: registered_def map_count_present)
  have created: "g_registry p d = Some (registry_of d p)"
    using reg by (rule registered_created)
  then have R: "Registry d p = (registry_of d p, p)"
    by (rule Registry_created)
  have same: "Registry_update d (registry_of d p) p = p"
    using created by (simp add: Registry_update_def fun_upd_idem)
  show ?thesis
    using one same
    by (simp add: CreateSolver_def R map_subscript_present [OF assms] case_prod_beta
        split: option.splits)
qed

text \<open>The unknown-type failure is decided by the check on \<open>count\<close> alone.\<close>

lemma CreateSolver_unknown_iff:
  "(\<exists>msg. fst (CreateSolver call d param p) = Inl (UnknownType msg))
     = (map_count (registry_of d p) (type param) \<noteq> 1)"
proof (cases "map_count (registry_of d p) (type param) = 1")
  case True
  then have "\<exists>r. fst (CreateSolver call d param p) = Inl NullCreatorCalled
      \<or> fst (CreateSolver call d param p) = Inr r"
    using Registry_eq [of d p]
    by (simp add: CreateSolver_def case_prod_beta Let_def split: option.splits)
  with True show ?thesis by auto
next
  case False
  then show ?thesis
    using Registry_eq [of d p]
    by (simp add: CreateSolver_def case_prod_beta Let_def)
qed

lemma sublist_join_with: "x \<in> set xs \<Longrightarrow> sublist x (join_with sep xs)"
proof (induction sep xs rule: join_with.induct)
  case (1 sep)
  then show ?case by simp
next
  case (2 sep x')
  then show ?case by simp
next
  case (3 sep x' y ys)
  show ?case
  proof (cases "x = x'")
    case True
    then show ?thesis by (simp add: sublist_append_rightI)
  next
    case False
    with 3 have "sublist x (join_with sep (y # ys))" by simp
    then have "sublist x ((x' @ sep) @ join_with sep (y # ys))"
      by (simp add: sublist_append)
    then show ?thesis by simp
  qed
qed

section \<open>Sequences of registrations\<close>

lemma registry_of_AddCreator_other:
  "d' \<noteq> d \<Longrightarrow> registry_of d' (snd (AddCreator d type' creator p)) = registry_of d' p"
  by (simp add: registry_of_def AddCreator_other)

lemma AddCreator_calls_registry:
  assumes "fst (AddCreator_calls calls p) = Inr ()" "map_ok (registry_of d p)"
  shows "map_ok (registry_of d (snd (AddCreator_calls calls p)))
       \<and> registered d (snd (AddCreator_calls calls p)) = registered d p \<union> set (calls_for d calls)
       \<and> length (registry_of d (snd (AddCreator_calls calls p)))
           = length (registry_of d p) + length (calls_for d calls)"
  using assms
proof (induction calls arbitrary: p)
  case Nil
  then show ?case by (simp add: calls_for_def)
next
  case (Cons call calls)
  obtain d0 t c where call: "call = (d0, t, c)" by (cases call)
  let ?p1 = "snd (AddCreator d0 t c p)"
  from Cons.prems(1) have ok1: "fst (AddCreator d0 t c p) = Inr ()"
    by (cases "AddCreator d0 t c p") (simp add: call split: sum.splits)
  then have run: "AddCreator_calls (call # calls) p = AddCreator_calls calls ?p1"
    by (cases "AddCreator d0 t c p") (simp add: call)
  with Cons.prems(1) have rest: "fst (AddCreator_calls calls ?p1) = Inr ()"
    by simp
  show ?case
  proof (cases "d0 = d")
    case True
    note step = registered_AddCreator [OF ok1 [unfolded True] Cons.prems(2)]
    have len: "length (registry_of d ?p1) = Suc (length (registry_of d p))"
      using arg_cong [OF step(3), of length] by (simp add: True)
    from Cons.IH [OF rest] step(2) True
    have "map_ok (registry_of d (snd (AddCreator_calls calls ?p1)))
       \<and> registered d (snd (AddCreator_calls calls ?p1)) = registered d ?p1 \<union> set (calls_for d calls)
       \<and> length (registry_of d (snd (AddCreator_calls calls ?p1)))
           = length (registry_of d ?p1) + length (calls_for d calls)"
      by simp
    then show ?thesis
      unfolding run using step(1) len True by (simp add: call calls_for_def)
  next
    case False
    then have same: "registry_of d ?p1 = registry_of d p"
      by (simp add: registry_of_AddCreator_other)
    then have "map_ok (registry_of d ?p1)" "registered d ?p1 = registered d p"
      using Cons.prems(2) by (simp_all add: registered_def)
    with Cons.IH [OF rest] same False show ?thesis
      unfolding run by (simp add: call calls_for_def)
  qed
qed

lemma registry_of_startup: "registry_of d (startup w) = []"
  by (simp add: registry_of_def startup_def)

lemma keys_after_calls:
  assumes "fst (AddCreator_calls calls (startup w)) = Inr ()"
  shows "map fst (registry_of d (snd (AddCreator_calls calls (startup w)))) = sort (calls_for d calls)"
    and "distinct (calls_for d calls)"
proof -
  let ?keys = "map fst (registry_of d (snd (AddCreator_calls calls (startup w))))"
  have start: "map_ok (registry_of d (startup w))"
    by (simp add: registry_of_startup map_ok_def)
  from AddCreator_calls_registry [OF assms start]
  have srt: "sorted_wrt (<) ?keys" and st: "set ?keys = set (calls_for d calls)"
    and len: "length ?keys = length (calls_for d calls)"
    by (simp_all add: map_ok_def registered_def registry_of_startup)
  from srt have sd: "sorted ?keys" "distinct ?keys"
    by (simp_all add: strict_sorted_iff)
  then have "card (set (calls_for d calls)) = length (calls_for d calls)"
    using st len distinct_card by metis
  then show dist: "distinct (calls_for d calls)"
    by (rule card_distinct)
  show "?keys = sort (calls_for d calls)"
    by (rule sorted_distinct_set_unique) (use sd st dist in simp_all)
qed

lemma registry_of_cong:
  "g_registry p' d = g_registry p d \<Longrightarrow> registry_of d p' = registry_of d p"
  by (simp add: registry_of_def)

lemma entries_AddCreator:
  assumes "type' \<notin> registered d p"
  shows "set (registry_of d' (snd (AddCreator d type' creator p))) =
     (if d' = d then insert (type', creator) (set (registry_of d p)) else set (registry_of d' p))"
proof -
  have zero: "map_count (registry_of d p) type' = 0"
    using assms by (simp add: registered_def map_count_absent)
  show ?thesis
    by (simp add: AddCreator_absent [OF assms] registry_of_Registry_update
        set_store_subscript [OF zero])
qed

lemma prefix_join_with: "prefix x (join_with sep (x # xs))"
  by (simp add: join_with_Cons)

lemma suffix_join_with: "xs \<noteq> [] \<Longrightarrow> suffix (last xs) (join_with sep xs)"
proof (induction sep xs rule: join_with.induct)
  case (1 sep)
  then show ?case by simp
next
  case (2 sep x)
  then show ?case by simp
next
  case (3 sep x y ys)
  then have "suffix (last (y # ys)) (join_with sep (y # ys))" by simp
  then have "suffix (last (y # ys)) ((x @ sep) @ join_with sep (y # ys))"
    by (rule suffix_appendI)
  then show ?case by simp
qed

section \<open>Properties of the registration macros\<close>

lemma REGISTER_SOLVER_CREATOR_absent:
  assumes "type' \<notin> registered Dtype_float p" "type' \<notin> registered Dtype_double p"
  shows "REGISTER_SOLVER_CREATOR type' creator p =
    (Inr (), snd (AddCreator Dtype_double type' (Some (creator Dtype_double))
                   (snd (AddCreator Dtype_float type' (Some (creator Dtype_float)) p))))"
proof -
  let ?p1 = "snd (AddCreator Dtype_float type' (Some (creator Dtype_float)) p)"
  have first: "AddCreator Dtype_float type' (Some (creator Dtype_float)) p = (Inr (), ?p1)"
    by (simp add: AddCreator_absent [OF assms(1)])
  have "registry_of Dtype_double ?p1 = registry_of Dtype_double p"
    by (simp add: registry_of_AddCreator_other)
  then have "type' \<notin> registered Dtype_double ?p1"
    using assms(2) by (simp add: registered_def)
  then have second: "fst (AddCreator Dtype_double type' (Some (creator Dtype_double)) ?p1) = Inr ()"
    by (simp add: AddCreator_absent)
  show ?thesis
    unfolding REGISTER_SOLVER_CREATOR_def SolverRegisterer_def
    by (subst first) (simp add: prod_eq_iff second)
qed

lemma REGISTER_SOLVER_CREATOR_entries:
  assumes "type' \<notin> registered Dtype_float p" "type' \<notin> registered Dtype_double p"
  shows "set (registry_of d (snd (REGISTER_SOLVER_CREATOR type' creator p))) =
           insert (type', Some (creator d)) (set (registry_of d p))"
proof -
  let ?p1 = "snd (AddCreator Dtype_float type' (Some (creator Dtype_float)) p)"
  have "registry_of Dtype_double ?p1 = registry_of Dtype_double p"
    by (simp add: registry_of_AddCreator_other)
  then have absent: "type' \<notin> registered Dtype_double ?p1"
    using assms(2) by (simp add: registered_def)
  show ?thesis
    by (cases d)
      (simp_all add: REGISTER_SOLVER_CREATOR_absent [OF assms] entries_AddCreator [OF absent]
        entries_AddCreator [OF assms(1)])
qed

lemma REGISTER_SOLVER_CREATOR_ok:
  assumes "type' \<notin> registered Dtype_float p" "type' \<notin> registered Dtype_double p"
    and "map_ok (registry_of d p)"
  shows "map_ok (registry_of d (snd (REGISTER_SOLVER_CREATOR type' creator p)))"
proof -
  let ?cf = "Some (creator Dtype_float)" and ?cd = "Some (creator Dtype_double)"
  let ?p1 = "snd (AddCreator Dtype_float type' ?cf p)"
  let ?p2 = "snd (AddCreator Dtype_double type' ?cd ?p1)"
  have first: "fst (AddCreator Dtype_float type' ?cf p) = Inr ()"
    by (simp add: AddCreator_absent [OF assms(1)])
  have same: "registry_of Dtype_double ?p1 = registry_of Dtype_double p"
    by (simp add: registry_of_AddCreator_other)
  then have absent: "type' \<notin> registered Dtype_double ?p1"
    using assms(2) by (simp add: registered_def)
  then have second: "fst (AddCreator Dtype_double type' ?cd ?p1) = Inr ()"
    by (simp add: AddCreator_absent)
  have "map_ok (registry_of d ?p2)"
  proof (cases d)
    case Dtype_float
    with assms(3) have "map_ok (registry_of Dtype_float ?p1)"
      using registered_AddCreator(2) [OF first] by simp
    then show ?thesis
      by (simp add: Dtype_float registry_of_AddCreator_other)
  next
    case Dtype_double
    with assms(3) same have "map_ok (registry_of Dtype_double ?p1)" by simp
    then show ?thesis
      using registered_AddCreator(2) [OF second] by (simp add: Dtype_double)
  qed
  then show ?thesis
    by (simp add: REGISTER_SOLVER_CREATOR_absent [OF assms(1,2)])
qed

lemma REGISTER_SOLVER_CREATOR_world:
  "world (snd (REGISTER_SOLVER_CREATOR type' creator p)) = world p"
proof (cases "AddCreator Dtype_float type' (Some (creator Dtype_float)) p")
  case (Pair res p1)
  then have w1: "world p1 = world p"
    using AddCreator_world [of Dtype_float type' "Some (creator Dtype_float)" p] by simp
  show ?thesis
  proof (cases res)
    case (Inl e)
    with Pair w1 show ?thesis
      by (simp add: REGISTER_SOLVER_CREATOR_def SolverRegisterer_def)
  next
    case (Inr u)
    with Pair w1 show ?thesis
      by (simp add: REGISTER_SOLVER_CREATOR_def SolverRegisterer_def AddCreator_world)
  qed
qed

section \<open>The example process\<close>

lemma sgd_adam_registry:
  "registry_of Dtype_float sgd_adam =
     [(''Adam'', Some (Creator_Solver ''Adam'' Dtype_float)),
      (''SGD'', Some (Creator_Solver ''SGD'' Dtype_float))]"
  "registry_of Dtype_double sgd_adam = []"
  by (simp_all add: registry_of_def sgd_adam_def)

lemma sgd_adam_ok: "map_ok (registry_of d sgd_adam)"
  by (cases d) (simp_all add: sgd_adam_registry map_ok_def)


lemma startup_calls_run:
  "AddCreator_calls startup_calls (startup (0::nat)) =
     (Inr (),
      \<lparr>g_registry = (\<lambda>d. None)
         (Dtype_float \<mapsto>
            [(''Adam'', Some (Creator_Solver ''Adam'' Dtype_float)),
             (''Nesterov'', Some (Creator_Solver ''Nesterov'' Dtype_float)),
             (''SGD'', Some (Creator_Solver ''SGD'' Dtype_float))],
          Dtype_double \<mapsto> [(''SGD'', Some (Creator_Solver ''SGD'' Dtype_double))]),
       world = 0\<rparr>)"
  by (simp add: startup_calls_def startup_def AddCreator_def Registry_def Registry_update_def
      fun_upd_twist)

lemma startup_calls_for:
  "calls_for Dtype_float startup_calls = [''SGD'', ''Adam'', ''Nesterov'']"
  "calls_for Dtype_double startup_calls = [''SGD'']"
  by (simp_all add: calls_for_def startup_calls_def)

section \<open>Creation\<close>

text \<open>
  Claim C1. For every precision type \<open>d\<close> and every identifier registered in the registry
  of \<open>d\<close>, \<open>CreateSolver\<close> with a parameter whose \<open>type\<close> field is that identifier
  calls the creator function \<open>f\<close> stored under the identifier, once, with the parameter
  itself and on the state the process had before the call, and returns the pointer that
  \<open>f\<close> returned, unchanged and unchecked; the process is left as \<open>f\<close> left it.
\<close>

theorem CreateSolver_invokes_registered_creator:
  assumes "map_ok (registry_of d p)"
    and "(type param, Some f) \<in> set (registry_of d p)"
  shows "CreateSolver call d param p =
           (Inr (fst (call f param p)), snd (call f param p))"
  using CreateSolver_present [OF assms, of call] by simp

theorem CreateSolver_invokes_registered_creator_witness:
  "map_ok (registry_of Dtype_float sgd_adam)
   \<and> (type \<lparr>type = ''Adam''\<rparr>, Some (Creator_Solver ''Adam'' Dtype_float))
        \<in> set (registry_of Dtype_float sgd_adam)
   \<and> CreateSolver example_program Dtype_float \<lparr>type = ''Adam''\<rparr> sgd_adam
        = (Inr (''AdamSolver'', Dtype_float, 0), sgd_adam\<lparr>world := 1\<rparr>)"
proof -
  have h1: "map_ok (registry_of Dtype_float sgd_adam)"
    by (rule sgd_adam_ok)
  have h2: "(type \<lparr>type = ''Adam''\<rparr>, Some (Creator_Solver ''Adam'' Dtype_float))
        \<in> set (registry_of Dtype_float sgd_adam)"
    by (simp add: sgd_adam_registry)
  have w: "world sgd_adam = 0"
    by (simp add: sgd_adam_def)
  show ?thesis
    using h1 h2 CreateSolver_invokes_registered_creator [OF h1 h2, of example_program]
    by (simp add: example_program_def new_example_def w)
qed




text \<open>
  Claim C3. For every precision type \<open>d\<close> and every identifier not registered for \<open>d\<close>,
  \<open>CreateSolver\<close> with a parameter carrying that identifier fails the check on
  \<open>count\<close> (the unknown-type failure), and every identifier registered for \<open>d\<close> at
  that moment occurs in the text of the failure message.
\<close>

theorem CreateSolver_unknown_type_lists_registered:
  assumes "type param \<notin> registered d p"
  shows "\<exists>msg. fst (CreateSolver call d param p) = Inl (UnknownType msg)
           \<and> msg = ''Unknown solver type: '' @ type param @ '' (known types: ''
                    @ join_with '', '' (map fst (registry_of d p)) @ '')''
           \<and> (\<forall>k \<in> registered d p. sublist k msg)"
proof -
  let ?known = "join_with '', '' (map fst (registry_of d p))"
  let ?msg = "''Unknown solver type: '' @ type param @ '' (known types: '' @ ?known @ '')''"
  have "sublist k ?msg" if "k \<in> registered d p" for k
  proof -
    from that have "k \<in> set (map fst (registry_of d p))"
      by (simp add: registered_def)
    then have "sublist k ?known"
      by (rule sublist_join_with)
    then have "sublist k ((''Unknown solver type: '' @ type param @ '' (known types: '') @ ?known @ '')'')"
      by (simp only: sublist_append) simp
    then show ?thesis by simp
  qed
  then show ?thesis
    by (simp add: CreateSolver_absent [OF assms])
qed

theorem CreateSolver_unknown_type_lists_registered_witness:
  "type \<lparr>type = ''Nonexistent''\<rparr> \<notin> registered Dtype_float sgd_adam
   \<and> fst (CreateSolver example_program Dtype_float \<lparr>type = ''Nonexistent''\<rparr> sgd_adam)
       = Inl (UnknownType ''Unknown solver type: Nonexistent (known types: Adam, SGD)'')
   \<and> sublist ''SGD'' ''Unknown solver type: Nonexistent (known types: Adam, SGD)''
   \<and> sublist ''Adam'' ''Unknown solver type: Nonexistent (known types: Adam, SGD)''"
proof -
  have h: "type \<lparr>type = ''Nonexistent''\<rparr> \<notin> registered Dtype_float sgd_adam"
    by (simp add: registered_def sgd_adam_registry)
  have r: "registered Dtype_float sgd_adam = {''Adam'', ''SGD''}"
    by (simp add: registered_def sgd_adam_registry)
  show ?thesis
    using h CreateSolver_unknown_type_lists_registered [OF h, of example_program]
    by (simp add: r sgd_adam_registry)
qed

section \<open>Registration\<close>

text \<open>
  Claim C2. For every precision type \<open>d\<close>, \<open>AddCreator\<close> succeeds exactly when the
  identifier is not yet registered for \<open>d\<close>, and fails the check with the
  duplicate-registration message otherwise. In particular, for distinct unregistered
  identifiers \<open>A\<close> and \<open>B\<close>, registering \<open>A\<close> and then \<open>B\<close> succeeds, while registering
  \<open>A\<close> and then \<open>A\<close> again fails, also with the very same creator.
\<close>

theorem AddCreator_succeeds_iff_absent:
  assumes "map_ok (registry_of d p)"
  shows "(fst (AddCreator d type' creator p) = Inr ()) = (type' \<notin> registered d p)
       \<and> (type' \<in> registered d p \<longrightarrow>
            fst (AddCreator d type' creator p)
              = Inl (DuplicateRegistration (''Solver type '' @ type' @ '' already registered.'')))
       \<and> (A \<noteq> B \<and> A \<notin> registered d p \<and> B \<notin> registered d p \<longrightarrow>
            fst (AddCreator d A cA p) = Inr ()
          \<and> fst (AddCreator d B cB (snd (AddCreator d A cA p))) = Inr ()
          \<and> fst (AddCreator d A cA (snd (AddCreator d A cA p)))
              = Inl (DuplicateRegistration (''Solver type '' @ A @ '' already registered.'')))"
proof (intro conjI impI)
  show iff: "(fst (AddCreator d type' creator p) = Inr ()) = (type' \<notin> registered d p)"
  proof (cases "type' \<in> registered d p")
    case True
    then show ?thesis by (simp add: AddCreator_present [OF assms])
  next
    case False
    then show ?thesis by (simp add: AddCreator_absent)
  qed
  show "fst (AddCreator d type' creator p)
      = Inl (DuplicateRegistration (''Solver type '' @ type' @ '' already registered.''))"
    if "type' \<in> registered d p"
    using that by (simp add: AddCreator_present [OF assms])
next
  assume AB: "A \<noteq> B \<and> A \<notin> registered d p \<and> B \<notin> registered d p"
  let ?p1 = "snd (AddCreator d A cA p)"
  show first: "fst (AddCreator d A cA p) = Inr ()"
    using AB by (simp add: AddCreator_absent)
  note after = registered_AddCreator [OF first assms]
  have "B \<notin> registered d ?p1"
    using AB after(1) by auto
  then show "fst (AddCreator d B cB ?p1) = Inr ()"
    by (simp add: AddCreator_absent)
  have "A \<in> registered d ?p1"
    using after(1) by simp
  then show "fst (AddCreator d A cA ?p1)
      = Inl (DuplicateRegistration (''Solver type '' @ A @ '' already registered.''))"
    by (simp add: AddCreator_present [OF after(2)])
qed

theorem AddCreator_succeeds_iff_absent_witness:
  "map_ok (registry_of Dtype_float sgd_adam)
   \<and> ''SGD'' \<in> registered Dtype_float sgd_adam
   \<and> fst (AddCreator Dtype_float ''SGD'' None sgd_adam)
       = Inl (DuplicateRegistration ''Solver type SGD already registered.'')
   \<and> ''AdaGrad'' \<noteq> ''RMSProp''
   \<and> ''AdaGrad'' \<notin> registered Dtype_float sgd_adam
   \<and> ''RMSProp'' \<notin> registered Dtype_float sgd_adam
   \<and> fst (AddCreator Dtype_float ''AdaGrad'' None sgd_adam) = Inr ()
   \<and> fst (AddCreator Dtype_float ''RMSProp'' None
            (snd (AddCreator Dtype_float ''AdaGrad'' None sgd_adam))) = Inr ()
   \<and> fst (AddCreator Dtype_float ''AdaGrad'' None
            (snd (AddCreator Dtype_float ''AdaGrad'' None sgd_adam)))
       = Inl (DuplicateRegistration ''Solver type AdaGrad already registered.'')"
proof -
  have h: "map_ok (registry_of Dtype_float sgd_adam)"
    by (rule sgd_adam_ok)
  have present: "''SGD'' \<in> registered Dtype_float sgd_adam"
    by (simp add: registered_def sgd_adam_registry)
  have absent: "''AdaGrad'' \<notin> registered Dtype_float sgd_adam"
    "''RMSProp'' \<notin> registered Dtype_float sgd_adam"
    by (simp_all add: registered_def sgd_adam_registry)
  show ?thesis
    using h present absent
      AddCreator_succeeds_iff_absent
        [OF h, of "''SGD''" None "''AdaGrad''" "''RMSProp''" None None]
    by simp
qed

text \<open>
  Claim C9. For every precision type \<open>d\<close>, \<open>AddCreator\<close> with an identifier that is
  already registered for \<open>d\<close> stops at the check, before any insertion: the process state,
  and so every entry of every registry, is exactly what it was before the call.
\<close>

theorem AddCreator_duplicate_leaves_process:
  assumes "map_ok (registry_of d p)" and "type' \<in> registered d p"
  shows "snd (AddCreator d type' creator p) = p
       \<and> fst (AddCreator d type' creator p)
           = Inl (DuplicateRegistration (''Solver type '' @ type' @ '' already registered.''))"
  by (simp add: AddCreator_present [OF assms])

theorem AddCreator_duplicate_leaves_process_witness:
  "map_ok (registry_of Dtype_float sgd_adam) \<and> ''SGD'' \<in> registered Dtype_float sgd_adam
   \<and> snd (AddCreator Dtype_float ''SGD'' None sgd_adam) = sgd_adam
   \<and> fst (AddCreator Dtype_float ''SGD'' None sgd_adam)
       = Inl (DuplicateRegistration ''Solver type SGD already registered.'')"
proof -
  have h1: "map_ok (registry_of Dtype_float sgd_adam)"
    by (rule sgd_adam_ok)
  have h2: "''SGD'' \<in> registered Dtype_float sgd_adam"
    by (simp add: registered_def sgd_adam_registry)
  show ?thesis
    using h1 h2 AddCreator_duplicate_leaves_process [OF h1 h2, of None] by simp
qed

text \<open>
  Claim C7. For every precision type, identifier and creator, constructing a
  \<open>SolverRegisterer\<close> is one call of \<open>AddCreator\<close> with the same identifier and
  creator and nothing else: result and process state are those of that call.
\<close>

theorem SolverRegisterer_is_AddCreator:
  "SolverRegisterer d type' creator p = AddCreator d type' creator p
   \<and> world (snd (SolverRegisterer d type' creator p)) = world p
   \<and> (type' \<notin> registered d p \<longrightarrow>
        fst (SolverRegisterer d type' creator p) = Inr ()
      \<and> set (registry_of d (snd (SolverRegisterer d type' creator p)))
          = insert (type', creator) (set (registry_of d p)))"
proof (intro conjI impI)
  show eq: "SolverRegisterer d type' creator p = AddCreator d type' creator p"
    by (simp add: SolverRegisterer_def)
  show "world (snd (SolverRegisterer d type' creator p)) = world p"
    unfolding eq by (rule AddCreator_world)
  assume absent: "type' \<notin> registered d p"
  show "fst (SolverRegisterer d type' creator p) = Inr ()"
    unfolding eq by (simp add: AddCreator_absent [OF absent])
  show "set (registry_of d (snd (SolverRegisterer d type' creator p)))
          = insert (type', creator) (set (registry_of d p))"
    unfolding eq by (simp add: entries_AddCreator [OF absent])
qed

theorem SolverRegisterer_is_AddCreator_witness:
  "''Nesterov'' \<notin> registered Dtype_float sgd_adam
   \<and> SolverRegisterer Dtype_float ''Nesterov'' (Some (Program_function 7)) sgd_adam
       = AddCreator Dtype_float ''Nesterov'' (Some (Program_function 7)) sgd_adam
   \<and> fst (SolverRegisterer Dtype_float ''Nesterov'' (Some (Program_function 7)) sgd_adam) = Inr ()
   \<and> set (registry_of Dtype_float
            (snd (SolverRegisterer Dtype_float ''Nesterov'' (Some (Program_function 7)) sgd_adam)))
       = {(''Nesterov'', Some (Program_function 7)),
          (''Adam'', Some (Creator_Solver ''Adam'' Dtype_float)),
          (''SGD'', Some (Creator_Solver ''SGD'' Dtype_float))}"
proof -
  let ?creator = "Some (Program_function 7) :: nat Creator"
  have h: "''Nesterov'' \<notin> registered Dtype_float sgd_adam"
    by (simp add: registered_def sgd_adam_registry)
  note t = SolverRegisterer_is_AddCreator [of Dtype_float "''Nesterov''" ?creator sgd_adam]
  from t h
  have "SolverRegisterer Dtype_float ''Nesterov'' ?creator sgd_adam
          = AddCreator Dtype_float ''Nesterov'' ?creator sgd_adam"
    and "fst (SolverRegisterer Dtype_float ''Nesterov'' ?creator sgd_adam) = Inr ()"
    and "set (registry_of Dtype_float (snd (SolverRegisterer Dtype_float ''Nesterov'' ?creator sgd_adam)))
          = insert (''Nesterov'', ?creator) (set (registry_of Dtype_float sgd_adam))"
    by blast+
  then show ?thesis
    using h by (simp add: sgd_adam_registry)
qed

text \<open>
  Claim C8. One use of \<open>REGISTER_SOLVER_CREATOR\<close> constructs exactly two registerers for
  the same identifier, first the one for \<open>float\<close>, then the one for \<open>double\<close>, each with
  the creator instantiated at its precision; \<open>REGISTER_SOLVER_CLASS\<close> is that macro applied
  to the generated creator, whose call returns \<open>new type##Solver<Dtype>(param)\<close>. When the
  identifier is registered for neither precision, the registration succeeds, leaves the
  memory untouched, adds exactly the one entry to each of the two registries, and a later
  \<open>CreateSolver\<close> with that identifier returns the newly constructed object of class
  \<open>type##Solver\<close> at the precision asked for.
\<close>

theorem REGISTER_SOLVER_CLASS_float_and_double:
  "REGISTER_SOLVER_CREATOR type' creator p =
     (case SolverRegisterer Dtype_float type' (Some (creator Dtype_float)) p of
        (Inl e, p1) \<Rightarrow> (Inl e, p1)
      | (Inr g, p1) \<Rightarrow> SolverRegisterer Dtype_double type' (Some (creator Dtype_double)) p1)
   \<and> REGISTER_SOLVER_CLASS type' p = REGISTER_SOLVER_CREATOR type' (Creator_Solver type') p
   \<and> program_calls functions new_Solver (Creator_Solver type' d) param q
       = new_Solver (type' @ ''Solver'') d param q
   \<and> (type' \<notin> registered Dtype_float p \<and> type' \<notin> registered Dtype_double p \<longrightarrow>
        fst (REGISTER_SOLVER_CLASS type' p) = Inr ()
      \<and> world (snd (REGISTER_SOLVER_CLASS type' p)) = world p
      \<and> (\<forall>d. set (registry_of d (snd (REGISTER_SOLVER_CLASS type' p)))
                = insert (type', Some (Creator_Solver type' d)) (set (registry_of d p)))
      \<and> (map_ok (registry_of d p) \<and> type param = type' \<longrightarrow>
           CreateSolver (program_calls functions new_Solver) d param
               (snd (REGISTER_SOLVER_CLASS type' p))
             = (Inr (fst (new_Solver (type' @ ''Solver'') d param
                            (snd (REGISTER_SOLVER_CLASS type' p)))),
                snd (new_Solver (type' @ ''Solver'') d param
                       (snd (REGISTER_SOLVER_CLASS type' p))))))"
proof (intro conjI impI allI)
  show "REGISTER_SOLVER_CREATOR type' creator p =
     (case SolverRegisterer Dtype_float type' (Some (creator Dtype_float)) p of
        (Inl e, p1) \<Rightarrow> (Inl e, p1)
      | (Inr g, p1) \<Rightarrow> SolverRegisterer Dtype_double type' (Some (creator Dtype_double)) p1)"
    by (simp add: REGISTER_SOLVER_CREATOR_def)
  show cls: "REGISTER_SOLVER_CLASS type' p = REGISTER_SOLVER_CREATOR type' (Creator_Solver type') p"
    by (simp add: REGISTER_SOLVER_CLASS_def)
  show "program_calls functions new_Solver (Creator_Solver type' d) param q
       = new_Solver (type' @ ''Solver'') d param q"
    by simp
  {
    assume absent: "type' \<notin> registered Dtype_float p \<and> type' \<notin> registered Dtype_double p"
    then have a: "type' \<notin> registered Dtype_float p" "type' \<notin> registered Dtype_double p"
      by simp_all
    show "fst (REGISTER_SOLVER_CLASS type' p) = Inr ()"
      by (simp add: cls REGISTER_SOLVER_CREATOR_absent [OF a])
    show "world (snd (REGISTER_SOLVER_CLASS type' p)) = world p"
      by (simp add: cls REGISTER_SOLVER_CREATOR_world)
    show entries: "set (registry_of d (snd (REGISTER_SOLVER_CLASS type' p)))
                = insert (type', Some (Creator_Solver type' d)) (set (registry_of d p))"
      for d
      by (simp add: cls REGISTER_SOLVER_CREATOR_entries [OF a])
    assume "map_ok (registry_of d p) \<and> type param = type'"
    then have ok: "map_ok (registry_of d p)" and ty: "type param = type'"
      by simp_all
    have ok': "map_ok (registry_of d (snd (REGISTER_SOLVER_CLASS type' p)))"
      by (simp add: cls REGISTER_SOLVER_CREATOR_ok [OF a ok])
    have "(type param, Some (Creator_Solver type' d))
            \<in> set (registry_of d (snd (REGISTER_SOLVER_CLASS type' p)))"
      by (simp add: entries ty)
    from CreateSolver_present [OF ok' this, of "program_calls functions new_Solver"]
    show "CreateSolver (program_calls functions new_Solver) d param
               (snd (REGISTER_SOLVER_CLASS type' p))
             = (Inr (fst (new_Solver (type' @ ''Solver'') d param
                            (snd (REGISTER_SOLVER_CLASS type' p)))),
                snd (new_Solver (type' @ ''Solver'') d param
                       (snd (REGISTER_SOLVER_CLASS type' p))))"
      by simp
  }
qed

theorem REGISTER_SOLVER_CLASS_float_and_double_witness:
  "''Nesterov'' \<notin> registered Dtype_float sgd_adam
   \<and> ''Nesterov'' \<notin> registered Dtype_double sgd_adam
   \<and> map_ok (registry_of Dtype_double sgd_adam)
   \<and> type \<lparr>type = ''Nesterov''\<rparr> = ''Nesterov''
   \<and> fst (REGISTER_SOLVER_CLASS ''Nesterov'' sgd_adam) = Inr ()
   \<and> fst (CreateSolver (program_calls sneaky new_example) Dtype_double \<lparr>type = ''Nesterov''\<rparr>
            (snd (REGISTER_SOLVER_CLASS ''Nesterov'' sgd_adam)))
       = Inr (''NesterovSolver'', Dtype_double, 0)"
proof -
  let ?param = "\<lparr>type = ''Nesterov''\<rparr>"
  let ?after = "snd (REGISTER_SOLVER_CLASS ''Nesterov'' sgd_adam)"
  have a: "''Nesterov'' \<notin> registered Dtype_float sgd_adam"
    "''Nesterov'' \<notin> registered Dtype_double sgd_adam"
    by (simp_all add: registered_def sgd_adam_registry)
  have ok: "map_ok (registry_of Dtype_double sgd_adam)"
    by (rule sgd_adam_ok)
  have ty: "type ?param = ''Nesterov''"
    by simp
  have w: "world sgd_adam = 0"
    by (simp add: sgd_adam_def)
  note t = REGISTER_SOLVER_CLASS_float_and_double
    [of "''Nesterov''" _ sgd_adam sneaky new_example Dtype_double ?param]
  from t a ok ty
  have r: "fst (REGISTER_SOLVER_CLASS ''Nesterov'' sgd_adam) = Inr ()"
    and wa: "world ?after = world sgd_adam"
    and c: "CreateSolver (program_calls sneaky new_example) Dtype_double ?param ?after
       = (Inr (fst (new_example (''Nesterov'' @ ''Solver'') Dtype_double ?param ?after)),
          snd (new_example (''Nesterov'' @ ''Solver'') Dtype_double ?param ?after))"
    by blast+
  from c wa have "fst (CreateSolver (program_calls sneaky new_example) Dtype_double ?param ?after)
       = Inr (''NesterovSolver'', Dtype_double, 0)"
    by (simp add: new_example_def w)
  with a ok ty r show ?thesis
    by (intro conjI)
qed

section \<open>Independence of the precision types\<close>

text \<open>
  Claim C4. The registries of distinct precision types \<open>P1\<close> and \<open>P2\<close> are independent:
  registering \<open>Foo\<close> under \<open>P1\<close> changes nothing in the registry of \<open>P2\<close>, every
  identifier is known or unknown to \<open>CreateSolver\<close> under \<open>P2\<close> as it was before, and
  \<open>Foo\<close> stays unknown under \<open>P2\<close>, with the same failure, unless it was registered
  there.
\<close>

theorem AddCreator_other_precision_invisible:
  assumes "P1 \<noteq> P2"
  shows "g_registry (snd (AddCreator P1 Foo creator p)) P2 = g_registry p P2
       \<and> (\<exists>msg. fst (CreateSolver call P2 param (snd (AddCreator P1 Foo creator p)))
                   = Inl (UnknownType msg))
           = (\<exists>msg. fst (CreateSolver call P2 param p) = Inl (UnknownType msg))
       \<and> (type param = Foo \<and> Foo \<notin> registered P2 p \<longrightarrow>
            (\<exists>msg. fst (CreateSolver call P2 param (snd (AddCreator P1 Foo creator p)))
                     = Inl (UnknownType msg))
          \<and> fst (CreateSolver call P2 param (snd (AddCreator P1 Foo creator p)))
              = fst (CreateSolver call P2 param p))"
proof (intro conjI impI)
  let ?after = "snd (AddCreator P1 Foo creator p)"
  show same: "g_registry ?after P2 = g_registry p P2"
    using assms by (simp add: AddCreator_other)
  then have reg: "registry_of P2 ?after = registry_of P2 p"
    by (rule registry_of_cong)
  show "(\<exists>msg. fst (CreateSolver call P2 param ?after) = Inl (UnknownType msg))
           = (\<exists>msg. fst (CreateSolver call P2 param p) = Inl (UnknownType msg))"
    by (simp only: CreateSolver_unknown_iff reg)
  assume "type param = Foo \<and> Foo \<notin> registered P2 p"
  then have absent: "type param \<notin> registered P2 p" by simp
  then have absent': "type param \<notin> registered P2 ?after"
    by (simp add: registered_def reg)
  show eq: "fst (CreateSolver call P2 param ?after) = fst (CreateSolver call P2 param p)"
    by (simp add: CreateSolver_absent [OF absent] CreateSolver_absent [OF absent'] reg)
  show "\<exists>msg. fst (CreateSolver call P2 param ?after) = Inl (UnknownType msg)"
    unfolding eq by (simp add: CreateSolver_absent [OF absent])
qed

theorem AddCreator_other_precision_invisible_witness:
  "Dtype_float \<noteq> Dtype_double
   \<and> g_registry (snd (AddCreator Dtype_float ''Foo'' (Some (Program_function 0)) sgd_adam))
         Dtype_double
       = g_registry sgd_adam Dtype_double
   \<and> type \<lparr>type = ''Foo''\<rparr> = ''Foo''
   \<and> ''Foo'' \<notin> registered Dtype_double sgd_adam
   \<and> (\<exists>msg. fst (CreateSolver example_program Dtype_double \<lparr>type = ''Foo''\<rparr>
                   (snd (AddCreator Dtype_float ''Foo'' (Some (Program_function 0)) sgd_adam)))
              = Inl (UnknownType msg))"
proof -
  have h: "Dtype_float \<noteq> Dtype_double" by simp
  have a: "''Foo'' \<notin> registered Dtype_double sgd_adam"
    by (simp add: registered_def sgd_adam_registry)
  have ty: "type \<lparr>type = ''Foo''\<rparr> = ''Foo''" by simp
  note t = AddCreator_other_precision_invisible
    [OF h, of "''Foo''" "Some (Program_function 0)" sgd_adam example_program "\<lparr>type = ''Foo''\<rparr>"]
  from t have t1: "g_registry (snd (AddCreator Dtype_float ''Foo'' (Some (Program_function 0)) sgd_adam))
         Dtype_double
       = g_registry sgd_adam Dtype_double"
    by (rule conjunct1)
  from t ty a have t3: "\<exists>msg. fst (CreateSolver example_program Dtype_double \<lparr>type = ''Foo''\<rparr>
                   (snd (AddCreator Dtype_float ''Foo'' (Some (Program_function 0)) sgd_adam)))
              = Inl (UnknownType msg)"
    by blast
  from h t1 ty a t3 show ?thesis
    by (intro conjI)
qed

section \<open>Listing the registered types\<close>

text \<open>
  Claim C5. After any sequence of successful \<open>AddCreator\<close> calls from the start of the
  process, \<open>SolverTypeList\<close> for precision type \<open>d\<close> returns exactly the identifiers
  registered for \<open>d\<close>: as many as there were calls for \<open>d\<close>, and none twice.
\<close>

theorem SolverTypeList_after_registrations:
  assumes "fst (AddCreator_calls calls (startup w)) = Inr ()"
  shows "length (fst (SolverTypeList d (snd (AddCreator_calls calls (startup w)))))
           = length (calls_for d calls)
       \<and> distinct (fst (SolverTypeList d (snd (AddCreator_calls calls (startup w)))))
       \<and> set (fst (SolverTypeList d (snd (AddCreator_calls calls (startup w)))))
           = set (calls_for d calls)"
proof -
  let ?types = "fst (SolverTypeList d (snd (AddCreator_calls calls (startup w))))"
  have types: "?types = sort (calls_for d calls)"
    by (simp add: SolverTypeList_eq keys_after_calls(1) [OF assms])
  have "distinct (calls_for d calls)"
    by (rule keys_after_calls(2) [OF assms])
  then show ?thesis
    unfolding types by simp
qed

theorem SolverTypeList_after_registrations_witness:
  "fst (AddCreator_calls startup_calls (startup (0::nat))) = Inr ()
   \<and> fst (SolverTypeList Dtype_float (snd (AddCreator_calls startup_calls (startup (0::nat)))))
       = [''Adam'', ''Nesterov'', ''SGD'']
   \<and> length (fst (SolverTypeList Dtype_float (snd (AddCreator_calls startup_calls (startup (0::nat))))))
       = length (calls_for Dtype_float startup_calls)
   \<and> distinct (fst (SolverTypeList Dtype_float (snd (AddCreator_calls startup_calls (startup (0::nat))))))
   \<and> set (fst (SolverTypeList Dtype_float (snd (AddCreator_calls startup_calls (startup (0::nat))))))
       = set (calls_for Dtype_float startup_calls)"
proof -
  have h: "fst (AddCreator_calls startup_calls (startup (0::nat))) = Inr ()"
    by (simp add: startup_calls_run)
  have l: "fst (SolverTypeList Dtype_float (snd (AddCreator_calls startup_calls (startup (0::nat)))))
       = [''Adam'', ''Nesterov'', ''SGD'']"
    by (simp add: startup_calls_run SolverTypeList_def Registry_def)
  show ?thesis
    using h l SolverTypeList_after_registrations [OF h, of Dtype_float] by simp
qed

text \<open>
  Claim C6. In every state \<open>SolverTypeListString\<close> is the list of \<open>SolverTypeList\<close>
  joined with \<open>", "\<close>, and it is empty when the registry is empty (not yet created, or
  created and empty). After any sequence of successful registrations that list is the
  registered identifiers in ascending lexicographic order, whatever the order of the calls,
  and the string starts with the first and ends with the last identifier: no separator
  leads or trails.
\<close>

theorem SolverTypeListString_is_sorted_join:
  "fst (SolverTypeListString d p) = join_with '', '' (fst (SolverTypeList d p))
   \<and> fst (SolverTypeListString d (p\<lparr>g_registry := (g_registry p)(d := None)\<rparr>)) = []
   \<and> fst (SolverTypeListString d (p\<lparr>g_registry := (g_registry p)(d \<mapsto> [])\<rparr>)) = []
   \<and> (fst (AddCreator_calls calls (startup w)) = Inr () \<longrightarrow>
        fst (SolverTypeList d (snd (AddCreator_calls calls (startup w)))) = sort (calls_for d calls)
      \<and> sorted_wrt (<) (sort (calls_for d calls))
      \<and> fst (SolverTypeListString d (snd (AddCreator_calls calls (startup w))))
          = join_with '', '' (sort (calls_for d calls))
      \<and> (calls_for d calls \<noteq> [] \<longrightarrow>
            prefix (hd (sort (calls_for d calls)))
              (fst (SolverTypeListString d (snd (AddCreator_calls calls (startup w)))))
          \<and> suffix (last (sort (calls_for d calls)))
              (fst (SolverTypeListString d (snd (AddCreator_calls calls (startup w)))))))"
proof (intro conjI impI)
  show "fst (SolverTypeListString d p) = join_with '', '' (fst (SolverTypeList d p))"
    by (simp add: SolverTypeListString_eq SolverTypeList_eq)
  show "fst (SolverTypeListString d (p\<lparr>g_registry := (g_registry p)(d := None)\<rparr>)) = []"
    by (simp add: SolverTypeListString_eq registry_of_def)
  show "fst (SolverTypeListString d (p\<lparr>g_registry := (g_registry p)(d \<mapsto> [])\<rparr>)) = []"
    by (simp add: SolverTypeListString_eq registry_of_def)
next
  assume run: "fst (AddCreator_calls calls (startup w)) = Inr ()"
  let ?p = "snd (AddCreator_calls calls (startup w))"
  let ?ids = "sort (calls_for d calls)"
  show types: "fst (SolverTypeList d ?p) = ?ids"
    by (simp add: SolverTypeList_eq keys_after_calls(1) [OF run])
  show "sorted_wrt (<) ?ids"
    using keys_after_calls(2) [OF run, of d] by (simp add: strict_sorted_iff)
  show str: "fst (SolverTypeListString d ?p) = join_with '', '' ?ids"
    using types by (simp add: SolverTypeListString_eq SolverTypeList_eq)
  assume "calls_for d calls \<noteq> []"
  then have ne: "?ids \<noteq> []"
    by (metis length_0_conv length_sort)
  show "prefix (hd ?ids) (fst (SolverTypeListString d ?p))"
    using ne prefix_join_with [of "hd ?ids" "'', ''" "tl ?ids"] by (simp add: str)
  show "suffix (last ?ids) (fst (SolverTypeListString d ?p))"
    using ne by (simp add: str suffix_join_with)
qed

theorem SolverTypeListString_is_sorted_join_witness:
  "fst (AddCreator_calls startup_calls (startup (0::nat))) = Inr ()
   \<and> calls_for Dtype_float startup_calls \<noteq> []
   \<and> fst (SolverTypeList Dtype_float (snd (AddCreator_calls startup_calls (startup (0::nat)))))
       = [''Adam'', ''Nesterov'', ''SGD'']
   \<and> fst (SolverTypeListString Dtype_float (snd (AddCreator_calls startup_calls (startup (0::nat)))))
       = ''Adam, Nesterov, SGD''
   \<and> prefix ''Adam''
        (fst (SolverTypeListString Dtype_float (snd (AddCreator_calls startup_calls (startup (0::nat))))))
   \<and> suffix ''SGD''
        (fst (SolverTypeListString Dtype_float (snd (AddCreator_calls startup_calls (startup (0::nat))))))"
proof -
  have h: "fst (AddCreator_calls startup_calls (startup (0::nat))) = Inr ()"
    by (simp add: startup_calls_run)
  have n: "calls_for Dtype_float startup_calls \<noteq> []"
    by (simp add: startup_calls_for)
  have s: "sort (calls_for Dtype_float startup_calls) = [''Adam'', ''Nesterov'', ''SGD'']"
    by (simp add: startup_calls_for)
  note t = SolverTypeListString_is_sorted_join
    [of Dtype_float "snd (AddCreator_calls startup_calls (startup (0::nat)))" startup_calls 0]
  from t h n
  have "fst (SolverTypeList Dtype_float (snd (AddCreator_calls startup_calls (startup (0::nat)))))
          = sort (calls_for Dtype_float startup_calls)"
    and "fst (SolverTypeListString Dtype_float (snd (AddCreator_calls startup_calls (startup (0::nat)))))
          = join_with '', '' (sort (calls_for Dtype_float startup_calls))"
    and "prefix (hd (sort (calls_for Dtype_float startup_calls)))
          (fst (SolverTypeListString Dtype_float (snd (AddCreator_calls startup_calls (startup (0::nat))))))"
    and "suffix (last (sort (calls_for Dtype_float startup_calls)))
          (fst (SolverTypeListString Dtype_float (snd (AddCreator_calls startup_calls (startup (0::nat))))))"
    by blast+
  then show ?thesis
    using h n unfolding s by simp
qed

end
